theory Spec2Isabelle
  imports Main "HOL-Library.Sublist"
begin

section \<open>Python strings\<close>

text \<open>
  A Python \<^verbatim>\<open>str\<close> is a sequence of Unicode code points, so it is modelled as a list of
  natural numbers. ASCII literals of the source are written with \<open>lit\<close>; the few
  non-ASCII characters of the source's literals are given by their code points.
\<close>

type_synonym str = "nat list"

definition lit :: "string \<Rightarrow> str" where
  "lit s = map of_char s"

text \<open>
  \<^verbatim>\<open>str.isspace\<close> for one character, after the whitespace table of CPython: the
  characters that \<^verbatim>\<open>str.strip()\<close> removes.
\<close>

definition isspace :: "nat \<Rightarrow> bool" where
  "isspace c \<longleftrightarrow>
     (9 \<le> c \<and> c \<le> 13) \<or> (28 \<le> c \<and> c \<le> 32) \<or> c = 133 \<or> c = 160 \<or> c = 5760 \<or>
     (8192 \<le> c \<and> c \<le> 8202) \<or> c = 8232 \<or> c = 8233 \<or> c = 8239 \<or> c = 8287 \<or> c = 12288"

definition strip :: "str \<Rightarrow> str" where
  "strip s = rev (dropWhile isspace (rev (dropWhile isspace s)))"

text \<open>
  \<^verbatim>\<open>s.replace(old, new)\<close>: every non-overlapping occurrence of \<open>old\<close>, scanning from
  the left, is replaced by \<open>new\<close>. With an empty \<open>old\<close> Python inserts \<open>new\<close> before
  every character and at the end.
\<close>

function replace :: "str \<Rightarrow> str \<Rightarrow> str \<Rightarrow> str" where
  "replace old new s =
     (if old = [] then new @ concat (map (\<lambda>c. c # new) s)
      else if s = [] then []
      else if prefix old s then new @ replace old new (drop (length old) s)
      else hd s # replace old new (tl s))"
  by pat_completeness auto
termination
  by (relation "measure (\<lambda>(old, new, s). length s)") auto

declare replace.simps [simp del]

text \<open>
  \<^verbatim>\<open>
  def format_telegram_text_html(text: str) -> str:
      text = text.replace('&', '&amp;')
      text = text.replace('<', '&lt;')
      text = text.replace('>', '&gt;')
      return text
  \<close>
\<close>

definition format_telegram_text_html :: "str \<Rightarrow> str" where
  "format_telegram_text_html text =
     (let text = replace (lit ''&'') (lit ''&amp;'') text;
          text = replace (lit ''<'') (lit ''&lt;'') text;
          text = replace (lit ''>'') (lit ''&gt;'') text
      in text)"

text \<open>\<^verbatim>\<open>str(n)\<close> of a non-negative integer: its decimal digits.\<close>

function str_nat :: "nat \<Rightarrow> str" where
  "str_nat n = (if n < 10 then [48 + n] else str_nat (n div 10) @ [48 + n mod 10])"
  by pat_completeness auto
termination
  by (relation "measure (\<lambda>n. n)") auto

declare str_nat.simps [simp del]

section \<open>Data model\<close>

text \<open>
  An announcement is a JSON object read as a Python dict. A key that may be missing is an
  \<open>option\<close> field (\<open>None\<close>: the key is absent); \<^verbatim>\<open>d.get(k, default)\<close> is
  \<open>dict_get\<close>. The key \<^verbatim>\<open>id\<close> is always present and is a string, as the annotations
  of \<^verbatim>\<open>get_latest_id\<close> and \<^verbatim>\<open>save_last_id\<close> say.
\<close>

record pdf_link =
  url :: "str option"
  label_fr :: "str option"

record announcement =
  ann_id :: str
  date :: "str option"
  title_fr :: "str option"
  title_ar :: "str option"
  description_fr :: "str option"
  description_ar :: "str option"
  pdf :: "pdf_link list option"

definition dict_get :: "'a option \<Rightarrow> 'a \<Rightarrow> 'a" where
  "dict_get v dflt = (case v of None \<Rightarrow> dflt | Some x \<Rightarrow> x)"

text \<open>What a fetch can fail with; \<^verbatim>\<open>check_once\<close> catches all of them alike.\<close>

datatype fetch_error = NetworkFailure | BadStatus nat | MalformedJson

text \<open>The exceptions that the code after the fetch can raise.\<close>

datatype error = KeyError str | IndexError | UnicodeEncodeError

text \<open>
  The module's settings and the outcome of the two external calls, which the code only
  observes as "raised or not".
\<close>

record env =
  telegram_bot_token :: str
  telegram_chat_id :: str
  notify_send_ok :: bool
  telegram_post_ok :: bool

text \<open>
  Everything the program does to the outside, in order. The time stamps that the log
  lines start with are left out.
\<close>

datatype event =
    FetchErrorLogged fetch_error
  | NoResultsLogged
  | InitializationLogged str
  | NoNewLogged
  | StaleMarkerWarning str
  | NoNewByIndexLogged
  | IdUpdatedLogged str str
  | Banner nat
  | ConsoleItem str str str str str str
  | ConsolePdfHeader
  | ConsolePdf str str
  | ConsoleItemEnd
  | NotifySendRun str str
  | NotifySendWarned
  | TelegramSkipped
  | TelegramPost str str
  | TelegramSent
  | TelegramFailed

text \<open>
  The world: the content of \<^verbatim>\<open>STATE_FILE\<close> (\<open>None\<close>: the file does not exist) and the
  trace of events so far. The content is the decoded text of the file. Failures of the
  operating system (permissions, a full disk) are outside the model.
\<close>

record world =
  state_file :: "str option"
  trace :: "event list"

definition emit :: "event \<Rightarrow> world \<Rightarrow> world" where
  "emit e w = w\<lparr>trace := trace w @ [e]\<rparr>"

section \<open>State store\<close>

text \<open>
  \<^verbatim>\<open>Path.read_text\<close> opens the file in text mode with universal newlines: \<^verbatim>\<open>\r\n\<close> and
  a lone \<^verbatim>\<open>\r\<close> are read as \<^verbatim>\<open>\n\<close>. \<^verbatim>\<open>Path.write_text\<close> on Linux writes the
  string as it is.
\<close>

fun universal_newlines :: "str \<Rightarrow> str" where
  "universal_newlines [] = []"
| "universal_newlines (c # cs) =
     (if c = 13 then
        (case cs of
           [] \<Rightarrow> [10]
         | d # ds \<Rightarrow> if d = 10 then 10 # universal_newlines ds else 10 # universal_newlines cs)
      else c # universal_newlines cs)"

definition read_text :: "str \<Rightarrow> str" where
  "read_text content = universal_newlines content"

text \<open>
  A string can be written as UTF-8 when it holds no surrogate code point (\<^verbatim>\<open>U+D800\<close> to
  \<^verbatim>\<open>U+DFFF\<close>); \<^verbatim>\<open>json\<close> produces such a string from an escape like \<^verbatim>\<open>"\ud800"\<close>.
\<close>

definition utf8_encodable :: "str \<Rightarrow> bool" where
  "utf8_encodable s = list_all (\<lambda>c. c < 55296 \<or> 57343 < c) s"

text \<open>
  \<^verbatim>\<open>
  def load_last_id() -> Optional[str]:
      if not STATE_FILE.exists():
          return None
      return STATE_FILE.read_text(encoding="utf-8").strip() or None

  def save_last_id(last_id: str):
      STATE_FILE.write_text(str(last_id), encoding="utf-8")
  \<close>
\<close>

definition load_last_id :: "world \<Rightarrow> str option" where
  "load_last_id w =
     (case state_file w of
        None \<Rightarrow> None
      | Some content \<Rightarrow>
          (let s = strip (read_text content) in if s = [] then None else Some s))"

text \<open>
  \<^verbatim>\<open>Path.write_text\<close> opens the file for writing, which empties it, and then encodes and
  writes the text: when the text cannot be encoded it raises \<^verbatim>\<open>UnicodeEncodeError\<close> and
  the file stays empty. \<^verbatim>\<open>str(last_id)\<close> of a string is the string.
\<close>

definition save_last_id :: "str \<Rightarrow> world \<Rightarrow> (error + unit) \<times> world" where
  "save_last_id last_id w =
     (if utf8_encodable last_id then (Inr (), w\<lparr>state_file := Some last_id\<rparr>)
      else (Inl UnicodeEncodeError, w\<lparr>state_file := Some []\<rparr>))"

section \<open>Notifier\<close>

text \<open>
  \<^verbatim>\<open>send_desktop_notification\<close> runs \<^verbatim>\<open>notify-send\<close> and catches every exception
  of the call, printing a warning; it never raises.
\<close>

definition send_desktop_notification :: "env \<Rightarrow> str \<Rightarrow> str \<Rightarrow> world \<Rightarrow> world" where
  "send_desktop_notification E title message w =
     (let w = emit (NotifySendRun title message) w
      in if notify_send_ok E then w else emit NotifySendWarned w)"

text \<open>
  \<^verbatim>\<open>send_telegram_notification\<close> skips the call when the settings are the placeholders,
  and otherwise posts the message; a failed request is caught and logged.
\<close>

definition send_telegram_notification :: "env \<Rightarrow> str \<Rightarrow> world \<Rightarrow> world" where
  "send_telegram_notification E message w =
     (if telegram_bot_token E = lit ''YOUR_BOT_TOKEN_HERE''
         \<or> telegram_chat_id E = lit ''YOUR_CHAT_ID_HERE''
      then emit TelegramSkipped w
      else
        (let w = emit (TelegramPost (telegram_chat_id E) message) w
         in if telegram_post_ok E then emit TelegramSent w else emit TelegramFailed w))"

definition base_url :: str where
  "base_url = lit ''https://www.men.gov.ma/''"

text \<open>
  The body of the loop that builds the chat message (lines 109 to 125): the text that one
  item adds. The id goes into the f-string as it is; the title and the label of the first
  document go through \<open>format_telegram_text_html\<close>; the link is added only when the item
  has a non-empty \<^verbatim>\<open>pdf\<close> list whose first entry has a non-empty \<^verbatim>\<open>url\<close>.
\<close>

definition telegram_item :: "announcement \<Rightarrow> str" where
  "telegram_item a =
     (let title = dict_get (title_fr a) (lit ''Announcement'');
          item_id = ann_id a;
          block = [10, 10] @ lit ''- <b>ID: '' @ item_id @ lit ''</b>'';
          block = block @ [10] @ lit ''  <b>'' @ format_telegram_text_html title @ lit ''</b>''
      in case pdf a of
           Some (p # ps) \<Rightarrow>
             (case url p of
                Some u \<Rightarrow>
                  if u \<noteq> [] then
                    (let link_text = format_telegram_text_html (dict_get (label_fr p) (lit ''View Document''));
                         link = base_url @ u
                     in block @ [10] @ lit ''  <a href='' @ [39] @ link @ [39] @ lit ''>''
                          @ link_text @ lit ''</a>'')
                  else block
              | None \<Rightarrow> block)
         | _ \<Rightarrow> block)"

fun telegram_loop :: "str \<Rightarrow> announcement list \<Rightarrow> str" where
  "telegram_loop telegram_message [] = telegram_message"
| "telegram_loop telegram_message (a # items) =
     telegram_loop (telegram_message @ telegram_item a) items"

definition telegram_header :: "nat \<Rightarrow> str" where
  "telegram_header n =
     lit ''<b>'' @ [128226] @ lit '' '' @ str_nat n @ lit '' New MEN Announcement(s)!</b>'' @ [10]"

text \<open>
  The console report (lines 128 to 142). \<^verbatim>\<open>p["url"]\<close> raises \<^verbatim>\<open>KeyError\<close> when a
  document has no \<^verbatim>\<open>url\<close>; the arguments of \<^verbatim>\<open>print\<close> are evaluated before the line
  is printed.
\<close>

fun print_pdfs :: "pdf_link list \<Rightarrow> world \<Rightarrow> (error + unit) \<times> world" where
  "print_pdfs [] w = (Inr (), w)"
| "print_pdfs (p # ps) w =
     (case url p of
        None \<Rightarrow> (Inl (KeyError (lit ''url'')), w)
      | Some u \<Rightarrow>
          print_pdfs ps (emit (ConsolePdf (dict_get (label_fr p) (lit ''Link'')) (base_url @ u)) w))"

fun print_items :: "announcement list \<Rightarrow> world \<Rightarrow> (error + unit) \<times> world" where
  "print_items [] w = (Inr (), w)"
| "print_items (a # items) w =
     (let w = emit (ConsoleItem (ann_id a) (dict_get (date a) (lit ''N/A''))
                      (dict_get (title_fr a) []) (dict_get (title_ar a) [])
                      (dict_get (description_fr a) []) (dict_get (description_ar a) [])) w;
          pdfs = dict_get (pdf a) []
      in if pdfs \<noteq> [] then
           (case print_pdfs pdfs (emit ConsolePdfHeader w) of
              (Inl e, w) \<Rightarrow> (Inl e, w)
            | (Inr u, w) \<Rightarrow> print_items items (emit ConsoleItemEnd w))
         else print_items items (emit ConsoleItemEnd w))"

text \<open>
  \<^verbatim>\<open>notify_new_announcements(new_items)\<close>: the banner, the chat message built from the
  items oldest first, the console report, then the desktop popup with the newest item's
  title and the chat message. \<^verbatim>\<open>new_items[0]\<close> raises on an empty list.
\<close>

definition notify_new_announcements ::
  "env \<Rightarrow> announcement list \<Rightarrow> world \<Rightarrow> (error + unit) \<times> world" where
  "notify_new_announcements E new_items w =
     (let w = emit (Banner (length new_items)) w;
          items_to_display = rev new_items
      in case new_items of
           [] \<Rightarrow> (Inl IndexError, w)
         | newest_item # rest \<Rightarrow>
             (let first_title = dict_get (title_fr newest_item) (lit ''New Announcement'');
                  telegram_message =
                    telegram_loop (telegram_header (length new_items)) items_to_display
              in case print_items items_to_display w of
                   (Inl e, w) \<Rightarrow> (Inl e, w)
                 | (Inr u, w) \<Rightarrow>
                     (let w = send_desktop_notification E
                                (lit ''MEN '' @ [8211] @ lit '' New Announcement'') first_title w;
                          w = send_telegram_notification E telegram_message w
                      in (Inr (), w))))"

section \<open>One polling cycle\<close>

text \<open>
  \<^verbatim>\<open>
  def get_latest_id(announcements):
      if not announcements:
          return None
      return announcements[0]["id"]
  \<close>
\<close>

definition get_latest_id :: "announcement list \<Rightarrow> str option" where
  "get_latest_id announcements =
     (case announcements of [] \<Rightarrow> None | a # rest \<Rightarrow> Some (ann_id a))"

text \<open>
  \<^verbatim>\<open>next(i for i, a in enumerate(announcements) if a["id"] == last_seen_id)\<close>: the index
  of the first entry with that id; \<open>None\<close> is \<^verbatim>\<open>StopIteration\<close>.
\<close>

fun enumerate_find :: "nat \<Rightarrow> announcement list \<Rightarrow> str \<Rightarrow> nat option" where
  "enumerate_find i [] last_seen_id = None"
| "enumerate_find i (a # rest) last_seen_id =
     (if ann_id a = last_seen_id then Some i else enumerate_find (Suc i) rest last_seen_id)"

definition index_of_last_seen :: "announcement list \<Rightarrow> str \<Rightarrow> nat option" where
  "index_of_last_seen announcements last_seen_id = enumerate_find 0 announcements last_seen_id"

text \<open>
  The \<^verbatim>\<open>try\<close> block of \<^verbatim>\<open>check_once\<close> (lines 176 to 188): the slice before the index
  found, or, on \<^verbatim>\<open>StopIteration\<close>, the warning on standard error and the whole feed.
\<close>

definition new_items_of :: "announcement list \<Rightarrow> str \<Rightarrow> world \<Rightarrow> announcement list \<times> world" where
  "new_items_of announcements last_seen_id w =
     (case index_of_last_seen announcements last_seen_id of
        Some i \<Rightarrow> (take i announcements, w)
      | None \<Rightarrow> (announcements, emit (StaleMarkerWarning last_seen_id) w))"

text \<open>
  \<^verbatim>\<open>check_once(last_seen_id)\<close>. The result of \<^verbatim>\<open>fetch_announcements()\<close> is an argument:
  \<open>Inl\<close> is an exception of the fetch, \<open>Inr\<close> the parsed feed. The value is what the call
  returns (\<open>Inr\<close>) or the exception that leaves it (\<open>Inl\<close>), with the world after it.
\<close>

definition check_once ::
  "env \<Rightarrow> fetch_error + announcement list \<Rightarrow> str option \<Rightarrow> world
     \<Rightarrow> (error + str option) \<times> world" where
  "check_once E fetched last_seen_id w =
     (case fetched of
        Inl e \<Rightarrow> (Inr last_seen_id, emit (FetchErrorLogged e) w)
      | Inr announcements \<Rightarrow>
          (case get_latest_id announcements of
             None \<Rightarrow> (Inr last_seen_id, emit NoResultsLogged w)
           | Some latest_id \<Rightarrow>
               (case last_seen_id of
                  None \<Rightarrow>
                    (case save_last_id latest_id w of
                       (Inl e, w) \<Rightarrow> (Inl e, w)
                     | (Inr u, w) \<Rightarrow>
                         (Inr (Some latest_id), emit (InitializationLogged latest_id) w))
                | Some last_seen \<Rightarrow>
                    if latest_id = last_seen then (Inr last_seen_id, emit NoNewLogged w)
                    else
                      (case new_items_of announcements last_seen w of
                         (new_items, w) \<Rightarrow>
                           if new_items = [] then (Inr last_seen_id, emit NoNewByIndexLogged w)
                           else
                             (case notify_new_announcements E new_items w of
                                (Inl e, w) \<Rightarrow> (Inl e, w)
                              | (Inr u, w) \<Rightarrow>
                                  (case save_last_id latest_id w of
                                     (Inl e, w) \<Rightarrow> (Inl e, w)
                                   | (Inr u, w) \<Rightarrow>
                                       (Inr (Some latest_id),
                                        emit (IdUpdatedLogged last_seen latest_id) w)))))))"

text \<open>
  The events by which a cycle notifies: the console report of new items, the desktop
  popup and the chat message. The one-line status messages of \<^verbatim>\<open>check_once\<close> are not
  notifications.
\<close>

fun is_notification :: "event \<Rightarrow> bool" where
  "is_notification (Banner n) = True"
| "is_notification (ConsoleItem i d tf ta df da) = True"
| "is_notification ConsolePdfHeader = True"
| "is_notification (ConsolePdf l u) = True"
| "is_notification ConsoleItemEnd = True"
| "is_notification (NotifySendRun t m) = True"
| "is_notification NotifySendWarned = True"
| "is_notification TelegramSkipped = True"
| "is_notification (TelegramPost c m) = True"
| "is_notification TelegramSent = True"
| "is_notification TelegramFailed = True"
| "is_notification e = False"

section \<open>Observations\<close>

text \<open>
  Two observations on a cycle that starts in \<open>w\<close> and ends in \<open>w'\<close>: the events it
  added to the trace, and the fact that it only notified (it left the state file alone
  and added notification events only).
\<close>

definition emitted :: "world \<Rightarrow> world \<Rightarrow> event list" where
  "emitted w w' = drop (length (trace w)) (trace w')"

definition notifies_only :: "world \<Rightarrow> world \<Rightarrow> bool" where
  "notifies_only w w' \<longleftrightarrow>
     state_file w' = state_file w \<and>
     (\<exists>es. trace w' = trace w @ es \<and> list_all is_notification es)"

text \<open>Sample data for the concrete instances: an item with only an id, settings, a world.\<close>

definition item :: "string \<Rightarrow> announcement" where
  "item i = \<lparr>ann_id = lit i, date = None, title_fr = None, title_ar = None,
      description_fr = None, description_ar = None, pdf = None\<rparr>"

definition sample_env :: env where
  "sample_env = \<lparr>telegram_bot_token = lit ''token'', telegram_chat_id = lit ''42'',
      notify_send_ok = True, telegram_post_ok = True\<rparr>"

definition empty_world :: world where
  "empty_world = \<lparr>state_file = None, trace = []\<rparr>"

definition feed_abcd :: "announcement list" where
  "feed_abcd = [item ''A'', item ''B'', item ''C'', item ''D'']"

text \<open>
  Further sample data: an item whose id is a lone surrogate code point, an item with a
  document that has no \<^verbatim>\<open>url\<close>, and a world whose state file holds the marker \<^verbatim>\<open>0\<close>.
\<close>

definition surrogate_item :: announcement where
  "surrogate_item = \<lparr>ann_id = [55296], date = None, title_fr = None, title_ar = None,
      description_fr = None, description_ar = None, pdf = None\<rparr>"



text \<open>
  What the three replacements do to one character, and the property that a text starts
  with one of the three escape sequences.
\<close>

definition escape_char :: "nat \<Rightarrow> str" where
  "escape_char c =
     (if c = 38 then lit ''&amp;'' else if c = 60 then lit ''&lt;''
      else if c = 62 then lit ''&gt;'' else [c])"

definition begins_escape :: "str \<Rightarrow> bool" where
  "begins_escape t \<longleftrightarrow>
     prefix (lit ''&amp;'') t \<or> prefix (lit ''&lt;'') t \<or> prefix (lit ''&gt;'') t"

text \<open>An item whose id holds markup characters, as a feed can deliver it.\<close>

definition markup_item :: announcement where
  "markup_item = \<lparr>ann_id = lit ''<1>'', date = None, title_fr = Some (lit ''Avis''),
      title_ar = None, description_fr = None, description_ar = None, pdf = None\<rparr>"

section \<open>Frame lemmas of the notifier\<close>

lemma emit_simps [simp]:
  "state_file (emit e w) = state_file w" "trace (emit e w) = trace w @ [e]"
  by (simp_all add: emit_def)

lemma notifies_only_refl: "notifies_only w w"
  by (simp add: notifies_only_def)

lemma notifies_only_trans:
  "notifies_only w1 w2 \<Longrightarrow> notifies_only w2 w3 \<Longrightarrow> notifies_only w1 w3"
  by (auto simp: notifies_only_def)

lemma notifies_only_emit: "is_notification e \<Longrightarrow> notifies_only w (emit e w)"
  by (simp add: notifies_only_def)

lemma print_pdfs_frame: "notifies_only w (snd (print_pdfs ps w))"
proof (induction ps arbitrary: w)
  case Nil
  show ?case by (simp add: notifies_only_refl)
next
  case (Cons p ps)
  show ?case
  proof (cases "url p")
    case None
    then show ?thesis by (simp add: notifies_only_refl)
  next
    case (Some u)
    let ?w = "emit (ConsolePdf (dict_get (label_fr p) (lit ''Link'')) (base_url @ u)) w"
    have "notifies_only w ?w" by (rule notifies_only_emit) simp
    from notifies_only_trans [OF this Cons.IH [of ?w]] show ?thesis using Some by simp
  qed
qed

lemma print_items_frame: "notifies_only w (snd (print_items items w))"
proof (induction items arbitrary: w)
  case Nil
  show ?case by (simp add: notifies_only_refl)
next
  case (Cons a items)
  define w1 where "w1 = emit (ConsoleItem (ann_id a) (dict_get (date a) (lit ''N/A''))
                      (dict_get (title_fr a) []) (dict_get (title_ar a) [])
                      (dict_get (description_fr a) []) (dict_get (description_ar a) [])) w"
  have w1: "notifies_only w w1"
    unfolding w1_def by (rule notifies_only_emit) simp
  have step: "notifies_only v (snd (print_items items (emit ConsoleItemEnd v)))" for v
    by (rule notifies_only_trans [OF notifies_only_emit Cons.IH]) simp
  show ?case
  proof (cases "dict_get (pdf a) [] = []")
    case True
    then have "snd (print_items (a # items) w) = snd (print_items items (emit ConsoleItemEnd w1))"
      by (simp add: w1_def Let_def)
    then show ?thesis using notifies_only_trans [OF w1 step] by simp
  next
    case False
    obtain r w2 where p: "print_pdfs (dict_get (pdf a) []) (emit ConsolePdfHeader w1) = (r, w2)"
      by (cases "print_pdfs (dict_get (pdf a) []) (emit ConsolePdfHeader w1)")
    have "notifies_only (emit ConsolePdfHeader w1) w2"
      using print_pdfs_frame [of "emit ConsolePdfHeader w1" "dict_get (pdf a) []"] p by simp
    then have w2: "notifies_only w w2"
      using notifies_only_trans [OF w1] notifies_only_trans [OF notifies_only_emit]
      by (metis is_notification.simps(3))
    show ?thesis
    proof (cases r)
      case (Inl e)
      then have "snd (print_items (a # items) w) = w2"
        using False p by (simp add: w1_def Let_def)
      then show ?thesis using w2 by simp
    next
      case (Inr u)
      then have "snd (print_items (a # items) w) = snd (print_items items (emit ConsoleItemEnd w2))"
        using False p by (simp add: w1_def Let_def)
      then show ?thesis using notifies_only_trans [OF w2 step] by simp
    qed
  qed
qed

lemma send_desktop_frame: "notifies_only w (send_desktop_notification E t m w)"
  unfolding send_desktop_notification_def Let_def
  by (auto intro!: notifies_only_emit notifies_only_trans [OF notifies_only_emit notifies_only_emit])

lemma send_telegram_frame: "notifies_only w (send_telegram_notification E m w)"
  unfolding send_telegram_notification_def Let_def
  by (auto intro!: notifies_only_emit notifies_only_trans [OF notifies_only_emit notifies_only_emit])

lemma notify_frame: "notifies_only w (snd (notify_new_announcements E items w))"
proof (cases items)
  case Nil
  then show ?thesis
    by (simp add: notify_new_announcements_def notifies_only_emit)
next
  case (Cons a rest)
  define w1 where "w1 = emit (Banner (length items)) w"
  have w1: "notifies_only w w1" unfolding w1_def by (rule notifies_only_emit) simp
  obtain r w2 where p: "print_items (rev items) w1 = (r, w2)"
    by (cases "print_items (rev items) w1")
  have w2: "notifies_only w w2"
    using notifies_only_trans [OF w1 print_items_frame [of w1 "rev items"]] p by simp
  show ?thesis
  proof (cases r)
    case (Inl e)
    then have "snd (notify_new_announcements E items w) = w2"
      using Cons p by (simp add: notify_new_announcements_def w1_def Let_def)
    then show ?thesis using w2 by simp
  next
    case (Inr u)
    then have "snd (notify_new_announcements E items w) =
        send_telegram_notification E (telegram_loop (telegram_header (length items)) (rev items))
          (send_desktop_notification E (lit ''MEN '' @ [8211] @ lit '' New Announcement'')
             (dict_get (title_fr a) (lit ''New Announcement'')) w2)"
      using Cons p by (simp add: notify_new_announcements_def w1_def Let_def)
    then show ?thesis
      using notifies_only_trans [OF w2 notifies_only_trans [OF send_desktop_frame send_telegram_frame]]
      by simp
  qed
qed

section \<open>The index search\<close>

lemma lit_eq_iff: "lit a = lit b \<longleftrightarrow> a = b"
  by (simp add: lit_def inj_map_eq_map inj_of_char)

lemma enumerate_find_None:
  "enumerate_find i xs m = None \<longleftrightarrow> m \<notin> ann_id ` set xs"
  by (induction xs arbitrary: i) auto

lemma enumerate_find_first:
  "k < length xs \<Longrightarrow> ann_id (xs ! k) = m \<Longrightarrow> (\<forall>j<k. ann_id (xs ! j) \<noteq> m)
     \<Longrightarrow> enumerate_find i xs m = Some (i + k)"
proof (induction xs arbitrary: i k)
  case Nil
  then show ?case by simp
next
  case (Cons a xs)
  show ?case
  proof (cases k)
    case 0
    with Cons.prems show ?thesis by simp
  next
    case (Suc k')
    from Cons.prems(3) Suc have "ann_id a \<noteq> m" by auto
    moreover have "enumerate_find (Suc i) xs m = Some (Suc i + k')"
    proof (rule Cons.IH)
      show "k' < length xs" using Cons.prems(1) Suc by simp
      show "ann_id (xs ! k') = m" using Cons.prems(2) Suc by simp
      show "\<forall>j<k'. ann_id (xs ! j) \<noteq> m" using Cons.prems(3) Suc by auto
    qed
    ultimately show ?thesis using Suc by simp
  qed
qed

lemma enumerate_find_Some:
  "enumerate_find i xs m = Some j \<Longrightarrow>
     i \<le> j \<and> j - i < length xs \<and> ann_id (xs ! (j - i)) = m \<and> (\<forall>l<j - i. ann_id (xs ! l) \<noteq> m)"
proof (induction xs arbitrary: i)
  case Nil
  then show ?case by simp
next
  case (Cons a xs)
  show ?case
  proof (cases "ann_id a = m")
    case True
    with Cons.prems show ?thesis by simp
  next
    case False
    with Cons.prems have f: "enumerate_find (Suc i) xs m = Some j" by simp
    from Cons.IH [OF f] have ih: "Suc i \<le> j" "j - Suc i < length xs"
      "ann_id (xs ! (j - Suc i)) = m" "\<forall>l<j - Suc i. ann_id (xs ! l) \<noteq> m" by auto
    then have eq: "j - i = Suc (j - Suc i)" by simp
    have "\<forall>l<j - i. ann_id ((a # xs) ! l) \<noteq> m"
    proof (intro allI impI)
      fix l assume "l < j - i"
      then show "ann_id ((a # xs) ! l) \<noteq> m"
        using False ih(4) eq by (cases l) auto
    qed
    then show ?thesis using ih eq by simp
  qed
qed

lemma new_items_of_found:
  assumes "k < length feed" "ann_id (feed ! k) = m" "\<forall>j<k. ann_id (feed ! j) \<noteq> m"
  shows "new_items_of feed m w = (take k feed, w)"
  using enumerate_find_first [OF assms, of 0]
  by (simp add: new_items_of_def index_of_last_seen_def)

lemma new_items_of_absent:
  assumes "m \<notin> ann_id ` set feed"
  shows "new_items_of feed m w = (feed, emit (StaleMarkerWarning m) w)"
  using assms enumerate_find_None [of 0 feed m]
  by (simp add: new_items_of_def index_of_last_seen_def)

lemma new_items_of_nonempty:
  assumes "feed \<noteq> []" "ann_id (hd feed) \<noteq> m"
  shows "fst (new_items_of feed m w) \<noteq> []"
proof (cases "enumerate_find 0 feed m")
  case None
  then show ?thesis using assms by (simp add: new_items_of_def index_of_last_seen_def)
next
  case (Some j)
  from enumerate_find_Some [OF Some] have "j < length feed" "ann_id (feed ! j) = m" by auto
  with assms have "j \<noteq> 0" by (metis hd_conv_nth)
  then show ?thesis using Some assms by (simp add: new_items_of_def index_of_last_seen_def)
qed

lemma new_items_of_world:
  "snd (new_items_of feed m w) = w \<or> snd (new_items_of feed m w) = emit (StaleMarkerWarning m) w"
  by (simp add: new_items_of_def split: option.splits)

section \<open>Properties of a cycle\<close>

lemma save_last_id_ok:
  "utf8_encodable i \<Longrightarrow> save_last_id i w = (Inr (), w\<lparr>state_file := Some i\<rparr>)"
  by (simp add: save_last_id_def)

lemma save_last_id_fails:
  "\<not> utf8_encodable i \<Longrightarrow> save_last_id i w = (Inl UnicodeEncodeError, w\<lparr>state_file := Some []\<rparr>)"
  by (simp add: save_last_id_def)

lemma save_last_id_trace [simp]: "trace (snd (save_last_id i w)) = trace w"
  by (simp add: save_last_id_def)

lemma save_last_id_cases:
  obtains (ok) "utf8_encodable i" "save_last_id i w = (Inr (), w\<lparr>state_file := Some i\<rparr>)"
  | (fails) "\<not> utf8_encodable i"
      "save_last_id i w = (Inl UnicodeEncodeError, w\<lparr>state_file := Some []\<rparr>)"
  using save_last_id_ok save_last_id_fails by blast

text \<open>
  Claim C6. When the fetch fails, whatever the failure and whatever the marker, the cycle
  returns normally with the marker it was given; the state file is as before, so a later
  load reads what it read before; and the only event is the log line of the error.
\<close>
theorem check_once_fetch_failure:
  "fst (check_once E (Inl e) last_seen_id w) = Inr last_seen_id \<and>
   state_file (snd (check_once E (Inl e) last_seen_id w)) = state_file w \<and>
   load_last_id (snd (check_once E (Inl e) last_seen_id w)) = load_last_id w \<and>
   emitted w (snd (check_once E (Inl e) last_seen_id w)) = [FetchErrorLogged e]"
  by (simp add: check_once_def emitted_def load_last_id_def)

text \<open>
  Claim C3, as the code has it. A cycle on a non-empty feed with no marker emits no
  notification event; and when the id of the first entry can be encoded as UTF-8, the
  cycle returns that id, leaves it in the state file, and emits the initialization line
  only.
\<close>
theorem check_once_initialization:
  assumes "feed \<noteq> []"
  shows "filter is_notification (emitted w (snd (check_once E (Inr feed) None w))) = [] \<and>
    (utf8_encodable (ann_id (hd feed)) \<longrightarrow>
       fst (check_once E (Inr feed) None w) = Inr (Some (ann_id (hd feed))) \<and>
       state_file (snd (check_once E (Inr feed) None w)) = Some (ann_id (hd feed)) \<and>
       emitted w (snd (check_once E (Inr feed) None w)) =
         [InitializationLogged (ann_id (hd feed))])"
proof -
  obtain a rest where f: "feed = a # rest" using assms by (cases feed) auto
  show ?thesis
  proof (cases rule: save_last_id_cases [of "ann_id a" w])
    case ok
    then show ?thesis by (simp add: f check_once_def get_latest_id_def emitted_def)
  next
    case fails
    then show ?thesis by (simp add: f check_once_def get_latest_id_def emitted_def)
  qed
qed

theorem check_once_initialization_witness:
  "fst (check_once sample_env (Inr [item ''A'', item ''B'']) None empty_world) = Inr (Some (lit ''A'')) \<and>
   state_file (snd (check_once sample_env (Inr [item ''A'', item ''B'']) None empty_world)) = Some (lit ''A'')"
  using check_once_initialization [of "[item ''A'', item ''B'']" empty_world sample_env]
  by (simp add: item_def utf8_encodable_def lit_def)

text \<open>
  The claim does not hold for every feed: when the first id holds a surrogate code point,
  the write raises, the cycle ends with that exception and the state file is left empty.
\<close>
theorem check_once_initialization_counterexample:
  "fst (check_once sample_env (Inr [surrogate_item]) None empty_world) = Inl UnicodeEncodeError \<and>
   state_file (snd (check_once sample_env (Inr [surrogate_item]) None empty_world))
     \<noteq> Some (ann_id surrogate_item)"
  by (simp add: check_once_def get_latest_id_def surrogate_item_def save_last_id_def
      utf8_encodable_def empty_world_def)

lemma check_once_notify:
  assumes "feed \<noteq> []" "ann_id (hd feed) \<noteq> m" "new_items_of feed m w = (items, w1)"
  shows "check_once E (Inr feed) (Some m) w =
     (case notify_new_announcements E items w1 of
        (Inl e, w2) \<Rightarrow> (Inl e, w2)
      | (Inr u, w2) \<Rightarrow>
          (case save_last_id (ann_id (hd feed)) w2 of
             (Inl e, w3) \<Rightarrow> (Inl e, w3)
           | (Inr u, w3) \<Rightarrow>
               (Inr (Some (ann_id (hd feed))),
                emit (IdUpdatedLogged m (ann_id (hd feed))) w3)))"
proof -
  have "items \<noteq> []" using new_items_of_nonempty [OF assms(1,2), of w] assms(3) by simp
  then show ?thesis using assms
    by (cases feed) (auto simp: check_once_def get_latest_id_def split: prod.splits sum.splits)
qed

text \<open>
  Claim C1. When the marker first occurs in the feed at index \<open>k\<close> and is not the id of
  the first entry, the new items are the \<open>k\<close> entries before it, in feed order, they are
  not empty, and the cycle is the notification of exactly these items followed, when the
  notifier returns, by the save of the first entry's id.
\<close>
theorem check_once_new_items_before_marker:
  assumes "k < length feed" "ann_id (feed ! k) = m" "\<forall>j<k. ann_id (feed ! j) \<noteq> m"
    and "ann_id (hd feed) \<noteq> m"
  shows "new_items_of feed m w = (take k feed, w) \<and> take k feed \<noteq> [] \<and>
    check_once E (Inr feed) (Some m) w =
     (case notify_new_announcements E (take k feed) w of
        (Inl e, w2) \<Rightarrow> (Inl e, w2)
      | (Inr u, w2) \<Rightarrow>
          (case save_last_id (ann_id (hd feed)) w2 of
             (Inl e, w3) \<Rightarrow> (Inl e, w3)
           | (Inr u, w3) \<Rightarrow>
               (Inr (Some (ann_id (hd feed))),
                emit (IdUpdatedLogged m (ann_id (hd feed))) w3)))"
proof -
  have ne: "feed \<noteq> []" using assms(1) by auto
  have n: "new_items_of feed m w = (take k feed, w)"
    by (rule new_items_of_found [OF assms(1-3)])
  have "take k feed \<noteq> []" using new_items_of_nonempty [OF ne assms(4), of w] n by simp
  then show ?thesis using n check_once_notify [OF ne assms(4) n] by simp
qed

theorem check_once_new_items_before_marker_witness:
  "new_items_of feed_abcd (lit ''C'') empty_world = ([item ''A'', item ''B''], empty_world)"
proof -
  have "\<forall>j<2. ann_id (feed_abcd ! j) \<noteq> lit ''C''"
    by (simp add: feed_abcd_def item_def lit_eq_iff less_2_cases_iff)
  from check_once_new_items_before_marker [of 2 feed_abcd "lit ''C''", OF _ _ this, of empty_world sample_env]
  show ?thesis by (simp add: feed_abcd_def item_def lit_eq_iff)
qed

lemma check_once_outcome:
  assumes "feed \<noteq> []" "ann_id (hd feed) \<noteq> m" "new_items_of feed m w = (items, w1)"
  shows "\<exists>es. list_all is_notification es \<and>
     ((\<exists>e. fst (check_once E (Inr feed) (Some m) w) = Inl e \<and>
         trace (snd (check_once E (Inr feed) (Some m) w)) = trace w1 @ es \<and>
         (state_file (snd (check_once E (Inr feed) (Some m) w)) = state_file w \<or>
          \<not> utf8_encodable (ann_id (hd feed)) \<and> e = UnicodeEncodeError \<and>
          state_file (snd (check_once E (Inr feed) (Some m) w)) = Some [])) \<or>
      (fst (check_once E (Inr feed) (Some m) w) = Inr (Some (ann_id (hd feed))) \<and>
       trace (snd (check_once E (Inr feed) (Some m) w)) =
         trace w1 @ es @ [IdUpdatedLogged m (ann_id (hd feed))] \<and>
       state_file (snd (check_once E (Inr feed) (Some m) w)) = Some (ann_id (hd feed))))"
proof -
  have w1: "state_file w1 = state_file w"
    using new_items_of_world [of feed m w] assms(3) by auto
  obtain r w2 where nt: "notify_new_announcements E items w1 = (r, w2)"
    by (cases "notify_new_announcements E items w1")
  from notify_frame [of w1 E items] nt obtain es where
    es: "trace w2 = trace w1 @ es" "list_all is_notification es" "state_file w2 = state_file w"
    by (auto simp: notifies_only_def w1)
  note c = check_once_notify [OF assms, of E]
  show ?thesis
  proof (cases r)
    case (Inl e)
    then have "check_once E (Inr feed) (Some m) w = (Inl e, w2)" using c nt by simp
    then show ?thesis using es by auto
  next
    case (Inr u)
    show ?thesis
    proof (cases rule: save_last_id_cases [of "ann_id (hd feed)" w2])
      case ok
      then have "check_once E (Inr feed) (Some m) w =
          (Inr (Some (ann_id (hd feed))),
           emit (IdUpdatedLogged m (ann_id (hd feed))) (w2\<lparr>state_file := Some (ann_id (hd feed))\<rparr>))"
        using c nt Inr by simp
      then show ?thesis using es by auto
    next
      case fails
      then have "check_once E (Inr feed) (Some m) w =
          (Inl UnicodeEncodeError, w2\<lparr>state_file := Some []\<rparr>)"
        using c nt Inr by simp
      then show ?thesis using es fails(1) by auto
    qed
  qed
qed






lemma check_once_trace:
  assumes "feed \<noteq> []" "ann_id (hd feed) \<noteq> m" "new_items_of feed m w = (items, w1)"
  shows "\<exists>es tl. trace (snd (check_once E (Inr feed) (Some m) w)) = trace w1 @ es @ tl \<and>
     list_all is_notification es \<and> (tl = [] \<or> tl = [IdUpdatedLogged m (ann_id (hd feed))])"
proof -
  from check_once_outcome [OF assms, of E] obtain es where
    "list_all is_notification es"
    "trace (snd (check_once E (Inr feed) (Some m) w)) = trace w1 @ es @ [] \<or>
     trace (snd (check_once E (Inr feed) (Some m) w)) =
       trace w1 @ es @ [IdUpdatedLogged m (ann_id (hd feed))]"
    by auto
  then show ?thesis by blast
qed

lemma check_once_stale_only_if:
  assumes "StaleMarkerWarning x \<in> set (emitted w (snd (check_once E fetched marker w)))"
  shows "\<exists>feed. fetched = Inr feed \<and> feed \<noteq> [] \<and> marker = Some x \<and> x \<notin> ann_id ` set feed"
proof (cases fetched)
  case (Inl e)
  then show ?thesis using assms by (simp add: check_once_def emitted_def)
next
  case (Inr feed)
  show ?thesis
  proof (cases "feed = [] \<or> marker = None \<or> marker = Some (ann_id (hd feed))")
    case True
    then show ?thesis using assms Inr
      by (cases feed)
         (auto simp: check_once_def save_last_id_def get_latest_id_def emitted_def
            split: if_splits)
  next
    case False
    then obtain m where m: "marker = Some m" "feed \<noteq> []" "ann_id (hd feed) \<noteq> m" by auto
    obtain items w1 where n: "new_items_of feed m w = (items, w1)"
      by (cases "new_items_of feed m w")
    from check_once_trace [OF m(2,3) n, of E] obtain es tl where
      t: "trace (snd (check_once E (Inr feed) (Some m) w)) = trace w1 @ es @ tl"
         "list_all is_notification es" "tl = [] \<or> tl = [IdUpdatedLogged m (ann_id (hd feed))]"
      by blast
    have nes: "StaleMarkerWarning x \<notin> set es"
      using t(2) by (auto simp: list_all_iff)
    have ntl: "StaleMarkerWarning x \<notin> set tl" using t(3) by auto
    show ?thesis
    proof (cases "m \<in> ann_id ` set feed")
      case True
      then have "enumerate_find 0 feed m \<noteq> None" by (simp add: enumerate_find_None)
      then have "w1 = w" using n by (auto simp: new_items_of_def index_of_last_seen_def)
      then have "emitted w (snd (check_once E fetched marker w)) = es @ tl"
        using t(1) Inr m(1) by (simp add: emitted_def)
      then show ?thesis using assms nes ntl by simp
    next
      case False
      from new_items_of_absent [OF False, of w] n have "w1 = emit (StaleMarkerWarning m) w" by simp
      then have "emitted w (snd (check_once E fetched marker w)) = StaleMarkerWarning m # es @ tl"
        using t(1) Inr m(1) by (simp add: emitted_def)
      then have "x = m" using assms nes ntl by simp
      then show ?thesis using False Inr m by simp
    qed
  qed
qed

text \<open>
  Claim C2. When the feed is not empty and no entry has the marker's id, the new items are
  the whole feed, the cycle is the notification of the whole feed after the stale-marker
  warning, and that warning is among the events of the cycle. The warning tells this case
  from every other: a cycle that emits it for an id had that id as its marker and a
  non-empty feed without it.
\<close>

theorem check_once_stale_marker:
  assumes "feed \<noteq> []" "m \<notin> ann_id ` set feed"
  shows "new_items_of feed m w = (feed, emit (StaleMarkerWarning m) w) \<and>
    check_once E (Inr feed) (Some m) w =
     (case notify_new_announcements E feed (emit (StaleMarkerWarning m) w) of
        (Inl e, w2) \<Rightarrow> (Inl e, w2)
      | (Inr u, w2) \<Rightarrow>
          (case save_last_id (ann_id (hd feed)) w2 of
             (Inl e, w3) \<Rightarrow> (Inl e, w3)
           | (Inr u, w3) \<Rightarrow>
               (Inr (Some (ann_id (hd feed))),
                emit (IdUpdatedLogged m (ann_id (hd feed))) w3))) \<and>
    StaleMarkerWarning m \<in> set (emitted w (snd (check_once E (Inr feed) (Some m) w))) \<and>
    (\<forall>E' fetched' marker' w' x.
       StaleMarkerWarning x \<in> set (emitted w' (snd (check_once E' fetched' marker' w'))) \<longrightarrow>
       (\<exists>feed'. fetched' = Inr feed' \<and> feed' \<noteq> [] \<and> marker' = Some x \<and> x \<notin> ann_id ` set feed'))"
proof -
  have hd: "ann_id (hd feed) \<noteq> m" using assms by (cases feed) auto
  have n: "new_items_of feed m w = (feed, emit (StaleMarkerWarning m) w)"
    by (rule new_items_of_absent [OF assms(2)])
  from check_once_trace [OF assms(1) hd n, of E] obtain es tl where
    "trace (snd (check_once E (Inr feed) (Some m) w)) = trace (emit (StaleMarkerWarning m) w) @ es @ tl"
    by blast
  then have "emitted w (snd (check_once E (Inr feed) (Some m) w)) = StaleMarkerWarning m # es @ tl"
    by (simp add: emitted_def)
  then have mem: "StaleMarkerWarning m \<in> set (emitted w (snd (check_once E (Inr feed) (Some m) w)))"
    by simp
  show ?thesis
    using n check_once_notify [OF assms(1) hd n, of E] mem check_once_stale_only_if by blast
qed

theorem check_once_stale_marker_witness:
  "new_items_of [item ''A'', item ''B'', item ''C''] (lit ''Z'') empty_world =
     ([item ''A'', item ''B'', item ''C''], emit (StaleMarkerWarning (lit ''Z'')) empty_world)"
  using check_once_stale_marker [of "[item ''A'', item ''B'', item ''C'']" "lit ''Z''" empty_world sample_env]
  by (simp add: item_def lit_eq_iff)


lemma check_once_noop:
  assumes "feed = [] \<or> marker = Some (ann_id (hd feed))"
  shows "fst (check_once E (Inr feed) marker w) = Inr marker \<and>
     state_file (snd (check_once E (Inr feed) marker w)) = state_file w \<and>
     filter is_notification (emitted w (snd (check_once E (Inr feed) marker w))) = []"
  using assms by (cases feed) (auto simp: check_once_def get_latest_id_def emitted_def)




text \<open>
  Claim C7. A cycle whose feed is empty, or whose marker is the id of the first entry, or
  whose computed new items are empty, returns the marker it was given, leaves the state
  file as it is and emits no notification event. (With an absent marker no new items are
  computed: that cycle is the initialization of claim C3.)
\<close>

theorem check_once_marker_unchanged:
  assumes "feed = [] \<or> marker = Some (ann_id (hd feed)) \<or>
     (\<exists>m. marker = Some m \<and> fst (new_items_of feed m w) = [])"
  shows "fst (check_once E (Inr feed) marker w) = Inr marker \<and>
     state_file (snd (check_once E (Inr feed) marker w)) = state_file w \<and>
     filter is_notification (emitted w (snd (check_once E (Inr feed) marker w))) = []"
proof (cases "feed = [] \<or> marker = Some (ann_id (hd feed))")
  case True
  then show ?thesis by (rule check_once_noop)
next
  case False
  with assms obtain m where m: "marker = Some m" "fst (new_items_of feed m w) = []" by auto
  from False m(1) have "feed \<noteq> []" "ann_id (hd feed) \<noteq> m" by auto
  from new_items_of_nonempty [OF this, of w] m(2) show ?thesis by simp
qed

theorem check_once_marker_unchanged_witness:
  "fst (check_once sample_env (Inr [item ''A'', item ''B'', item ''C'']) (Some (lit ''A'')) empty_world)
     = Inr (Some (lit ''A'')) \<and>
   state_file (snd (check_once sample_env (Inr [item ''A'', item ''B'', item ''C'']) (Some (lit ''A''))
     empty_world)) = None"
  using check_once_marker_unchanged [of "[item ''A'', item ''B'', item ''C'']" "Some (lit ''A'')"
     empty_world sample_env]
  by (simp add: item_def empty_world_def)

section \<open>Escaping\<close>

lemma lit_escapes:
  "lit ''&'' = [38]" "lit ''<'' = [60]" "lit ''>'' = [62]"
  "lit ''&amp;'' = [38, 97, 109, 112, 59]" "lit ''&lt;'' = [38, 108, 116, 59]"
  "lit ''&gt;'' = [38, 103, 116, 59]"
  by (simp_all add: lit_def)

lemma replace_single:
  "replace [a] new s = concat (map (\<lambda>c. if c = a then new else [c]) s)"
proof (induction s)
  case Nil
  show ?case by (simp add: replace.simps)
next
  case (Cons x xs)
  show ?case using Cons.IH by (subst replace.simps) auto
qed

lemma concat_map_concat_map:
  "concat (map f (concat (map g s))) = concat (map (\<lambda>c. concat (map f (g c))) s)"
  by (induction s) simp_all

lemma format_telegram_text_html_concat:
  "format_telegram_text_html s = concat (map escape_char s)"
  unfolding format_telegram_text_html_def Let_def lit_escapes replace_single concat_map_concat_map
  by (rule arg_cong [where f = concat], rule map_cong [OF refl]) (simp add: escape_char_def lit_escapes)

lemma escape_char_no_markup: "60 \<notin> set (escape_char c) \<and> 62 \<notin> set (escape_char c)"
  by (simp add: escape_char_def lit_escapes)

lemma escape_char_amp:
  assumes "i < length (escape_char c)" "escape_char c ! i = 38"
  shows "i = 0 \<and> begins_escape (escape_char c @ rest)"
proof -
  consider "c = 38" | "c = 60" | "c = 62" | "c \<noteq> 38" "c \<noteq> 60" "c \<noteq> 62" by blast
  then show ?thesis
  proof cases
    case 1
    with assms have "i < 5" and "[38, 97, 109, 112, 59] ! i = (38::nat)"
      by (simp_all add: escape_char_def lit_escapes)
    then have "i = 0" by (cases i) (auto simp: nth_Cons' split: if_splits)
    then show ?thesis using 1 by (simp add: escape_char_def begins_escape_def)
  next
    case 2
    with assms have "i < 4" and "[38, 108, 116, 59] ! i = (38::nat)"
      by (simp_all add: escape_char_def lit_escapes)
    then have "i = 0" by (cases i) (auto simp: nth_Cons' split: if_splits)
    then show ?thesis using 2 by (simp add: escape_char_def begins_escape_def)
  next
    case 3
    with assms have "i < 4" and "[38, 103, 116, 59] ! i = (38::nat)"
      by (simp_all add: escape_char_def lit_escapes)
    then have "i = 0" by (cases i) (auto simp: nth_Cons' split: if_splits)
    then show ?thesis using 3 by (simp add: escape_char_def begins_escape_def)
  next
    case 4
    with assms show ?thesis by (simp add: escape_char_def)
  qed
qed

lemma concat_escape_amp:
  "i < length (concat (map escape_char s)) \<Longrightarrow> concat (map escape_char s) ! i = 38
     \<Longrightarrow> begins_escape (drop i (concat (map escape_char s)))"
proof (induction s arbitrary: i)
  case Nil
  then show ?case by simp
next
  case (Cons c s)
  let ?e = "escape_char c" and ?r = "concat (map escape_char s)"
  show ?case
  proof (cases "i < length ?e")
    case True
    with Cons.prems(2) have "?e ! i = 38" by (simp add: nth_append)
    from escape_char_amp [OF True this, of ?r] show ?thesis by simp
  next
    case False
    with Cons.prems have "i - length ?e < length ?r" "?r ! (i - length ?e) = 38"
      by (auto simp: nth_append)
    from Cons.IH [OF this] show ?thesis using False by simp
  qed
qed

text \<open>
  Claim C8. The escaping function maps \<^verbatim>\<open><b>&test</b>\<close> to
  \<^verbatim>\<open>&lt;b&gt;&amp;test&lt;/b&gt;\<close>; for every input, its output has no \<^verbatim>\<open><\<close> and no
  \<^verbatim>\<open>>\<close>, and at every position of the output that holds \<^verbatim>\<open>&\<close> one of the three
  escape sequences begins.
\<close>

theorem format_telegram_text_html_escapes:
  "format_telegram_text_html (lit ''<b>&test</b>'') = lit ''&lt;b&gt;&amp;test&lt;/b&gt;'' \<and>
   60 \<notin> set (format_telegram_text_html s) \<and> 62 \<notin> set (format_telegram_text_html s) \<and>
   (\<forall>i<length (format_telegram_text_html s). format_telegram_text_html s ! i = 38 \<longrightarrow>
      begins_escape (drop i (format_telegram_text_html s)))"
proof -
  have "format_telegram_text_html (lit ''<b>&test</b>'') = lit ''&lt;b&gt;&amp;test&lt;/b&gt;''"
    by (simp add: format_telegram_text_html_concat escape_char_def lit_def)
  moreover have "60 \<notin> set (format_telegram_text_html s) \<and> 62 \<notin> set (format_telegram_text_html s)"
    using escape_char_no_markup by (auto simp: format_telegram_text_html_concat)
  ultimately show ?thesis
    using concat_escape_amp [of _ s] by (simp add: format_telegram_text_html_concat)
qed

theorem format_telegram_text_html_escapes_witness:
  "format_telegram_text_html (lit ''a&b'') ! 1 = 38 \<and>
   begins_escape (drop 1 (format_telegram_text_html (lit ''a&b'')))"
proof -
  have e: "format_telegram_text_html (lit ''a&b'') = lit ''a&amp;b''"
    by (simp add: format_telegram_text_html_concat escape_char_def lit_def)
  have "1 < length (format_telegram_text_html (lit ''a&b''))"
    and "format_telegram_text_html (lit ''a&b'') ! 1 = 38"
    unfolding e by (simp_all add: lit_def)
  then show ?thesis using format_telegram_text_html_escapes [of "lit ''a&b''"] by blast
qed

section \<open>The state store\<close>

lemma strip_Nil_iff: "strip s = [] \<longleftrightarrow> list_all isspace s"
proof
  assume "strip s = []"
  then have a: "\<forall>x\<in>set (dropWhile isspace s). isspace x"
    by (simp add: strip_def list_all_iff)
  have "dropWhile isspace s = []"
  proof (rule ccontr)
    assume n: "dropWhile isspace s \<noteq> []"
    then have "\<not> isspace (hd (dropWhile isspace s))" by (rule hd_dropWhile)
    moreover have "hd (dropWhile isspace s) \<in> set (dropWhile isspace s)" using n by simp
    ultimately show False using a by blast
  qed
  then show "list_all isspace s" by (simp add: list_all_iff)
next
  assume "list_all isspace s"
  then have d: "dropWhile isspace s = []" by (simp add: list_all_iff)
  show "strip s = []" unfolding strip_def d by simp
qed

lemma strip_id:
  assumes "s \<noteq> []" "\<not> isspace (hd s)" "\<not> isspace (last s)"
  shows "strip s = s"
proof -
  have 1: "dropWhile isspace s = s" using assms(1,2) by (cases s) simp_all
  have "rev s \<noteq> []" "\<not> isspace (hd (rev s))" using assms(1,3) by (simp_all add: hd_rev)
  then have 2: "dropWhile isspace (rev s) = rev s" by (cases "rev s") simp_all
  show ?thesis by (simp add: strip_def 1 2)
qed

lemma isspace_newlines: "isspace 13" "isspace 10"
  by (simp_all add: isspace_def)

lemma universal_newlines_all_space:
  "list_all isspace (universal_newlines s) \<longleftrightarrow> list_all isspace s"
  by (induction s rule: universal_newlines.induct) (auto simp: isspace_newlines split: list.splits)

lemma universal_newlines_id: "13 \<notin> set s \<Longrightarrow> universal_newlines s = s"
  by (induction s rule: universal_newlines.induct) auto

lemma load_after_save:
  "load_last_id (snd (save_last_id i w)) =
     (if utf8_encodable i \<and> \<not> list_all isspace i then Some (strip (universal_newlines i))
      else None)"
proof (cases "utf8_encodable i")
  case True
  then show ?thesis
    by (simp add: load_last_id_def save_last_id_def read_text_def Let_def strip_Nil_iff
        universal_newlines_all_space)
next
  case False
  have "strip [] = []" by (simp add: strip_def)
  then show ?thesis using False
    by (simp add: load_last_id_def save_last_id_def read_text_def Let_def)
qed

text \<open>
  Claim C9, as the code has it. Saving an id succeeds, and loading then gives that id
  back, when the id is not empty, neither starts nor ends with a whitespace character,
  holds no carriage return and can be encoded as UTF-8. Loading gives nothing exactly
  when the state file does not exist or its content is empty or whitespace only.
\<close>
theorem save_load_round_trip:
  "(i \<noteq> [] \<and> \<not> isspace (hd i) \<and> \<not> isspace (last i) \<and> 13 \<notin> set i \<and> utf8_encodable i \<longrightarrow>
      fst (save_last_id i w) = Inr () \<and> load_last_id (snd (save_last_id i w)) = Some i) \<and>
   (load_last_id w = None \<longleftrightarrow>
      state_file w = None \<or> (\<exists>content. state_file w = Some content \<and> list_all isspace content))"
proof -
  have "fst (save_last_id i w) = Inr () \<and> load_last_id (snd (save_last_id i w)) = Some i"
    if "i \<noteq> []" "\<not> isspace (hd i)" "\<not> isspace (last i)" "13 \<notin> set i" "utf8_encodable i"
  proof -
    have "\<not> list_all isspace i" using that(1,2) by (cases i) auto
    then have "load_last_id (snd (save_last_id i w)) = Some i"
      using that by (simp add: load_after_save universal_newlines_id strip_id)
    moreover have "fst (save_last_id i w) = Inr ()" using that(5) by (simp add: save_last_id_ok)
    ultimately show ?thesis by simp
  qed
  moreover have "load_last_id w = None \<longleftrightarrow>
      state_file w = None \<or> (\<exists>content. state_file w = Some content \<and> list_all isspace content)"
    by (cases "state_file w")
       (simp_all add: load_last_id_def read_text_def Let_def strip_Nil_iff universal_newlines_all_space)
  ultimately show ?thesis by blast
qed

theorem save_load_round_trip_witness:
  "load_last_id (snd (save_last_id (lit ''42'') empty_world)) = Some (lit ''42'') \<and>
   load_last_id empty_world = None"
  using save_load_round_trip [of "lit ''42''" empty_world] save_load_round_trip [of "[]" empty_world]
  by (simp add: lit_def isspace_def empty_world_def utf8_encodable_def)

text \<open>
  The round trip does not hold for every id: the id \<^verbatim>\<open>" 7"\<close> is saved as it is and
  loaded without its leading space.
\<close>

theorem save_load_round_trip_counterexample:
  "load_last_id (snd (save_last_id (lit '' 7'') empty_world)) \<noteq> Some (lit '' 7'')"
  by (simp add: load_last_id_def save_last_id_def read_text_def strip_def isspace_def lit_def
      utf8_encodable_def)

section \<open>The chat message\<close>

lemma str_nat_1: "str_nat (Suc 0) = [49]"
  by (simp add: str_nat.simps [of "Suc 0"])

text \<open>
  Claim C5 at a concrete feed. The feed has one item with id \<^verbatim>\<open><1>\<close> and title
  \<^verbatim>\<open>Avis\<close>, the marker \<^verbatim>\<open>0\<close> is not in the feed, and the cycle posts a chat message
  whose id line holds the id as it came, with its \<^verbatim>\<open><\<close> and \<^verbatim>\<open>>\<close> unescaped.
\<close>

theorem telegram_id_unescaped:
  "TelegramPost (lit ''42'')
     (lit ''<b>'' @ [128226] @ lit '' 1 New MEN Announcement(s)!</b>'' @ [10, 10, 10]
        @ lit ''- <b>ID: <1></b>'' @ [10] @ lit ''  <b>Avis</b>'')
   \<in> set (trace (snd (check_once sample_env (Inr [markup_item]) (Some (lit ''0'')) empty_world)))"
  by (simp add: check_once_def get_latest_id_def new_items_of_def index_of_last_seen_def
      notify_new_announcements_def markup_item_def lit_eq_iff Let_def dict_get_def
      send_desktop_notification_def send_telegram_notification_def sample_env_def
      telegram_header_def telegram_item_def str_nat_1 format_telegram_text_html_concat
      escape_char_def save_last_id_def)
     (simp add: lit_def empty_world_def escape_char_def utf8_encodable_def)

end
